theory Spec2Isabelle
  imports Complex_Main
begin

section \<open>The 2048 rules engine (\<^verbatim>\<open>lib/game-logic.ts\<close>)\<close>

text \<open>
  A shallow embedding of the pure game logic. A \<^verbatim>\<open>Tile\<close> is a TypeScript \<^verbatim>\<open>number\<close>
  that only ever holds integers (0 for an empty cell, otherwise a tile value), so it is
  modelled as \<^typ>\<open>int\<close>; a \<^verbatim>\<open>Board\<close> is an array of rows. Where the JavaScript would
  throw, the model returns \<open>Inl TypeError\<close>. Where the JavaScript would read
  \<^verbatim>\<open>undefined\<close> as a cell (only on a jagged board, which no function of the engine
  builds), the model reads a list out of range, which is unspecified in HOL as well.
  The two kinds of result object, \<^verbatim>\<open>{ row, score }\<close> and \<^verbatim>\<open>{ board, score }\<close>, are pairs.
\<close>

type_synonym Tile = int
type_synonym Board = "Tile list list"

record GameState =
  board :: Board
  score :: int
  gameOver :: bool
  won :: bool

datatype direction = Up | Down | Left | Right

datatype error = TypeError

text \<open>
  The two calls of \<^verbatim>\<open>Math.random()\<close> in \<^verbatim>\<open>addRandomTile\<close>, in the order they are made:
  the first selects the cell, the second the value. Each lies in the interval from 0
  (included) to 1 (excluded).
\<close>

type_synonym draws = "real \<times> real"

definition unit_draw :: "real \<Rightarrow> bool" where
  "unit_draw u = (0 \<le> u \<and> u < 1)"

subsection \<open>Empty cells and the random tile\<close>

definition getEmptyCells :: "Board \<Rightarrow> (nat \<times> nat) list" where
  "getEmptyCells b =
     concat (map (\<lambda>i. map (\<lambda>j. (i, j))
                          (filter (\<lambda>j. b ! i ! j = 0) [0..<length (b ! i)]))
                 [0..<length b])"

definition addRandomTile :: "Board \<Rightarrow> draws \<Rightarrow> Board" where
  "addRandomTile b rnd =
     (let emptyCells = getEmptyCells b in
      if length emptyCells = 0 then b
      else
        let (row, col) = emptyCells ! nat \<lfloor>fst rnd * real (length emptyCells)\<rfloor>;
            val = (if snd rnd < 9 / 10 then 2 else 4);
            newBoard = map (\<lambda>r. r) b
        in newBoard[row := (newBoard ! row)[col := val]])"

subsection \<open>Sliding one row\<close>

text \<open>The first \<^verbatim>\<open>while\<close> loop of \<^verbatim>\<open>slideRow\<close>: its state is the index, the output
  built so far and the score.\<close>

function slideLoop :: "Tile list \<Rightarrow> nat \<Rightarrow> Tile list \<Rightarrow> int \<Rightarrow> Tile list \<times> int" where
  "slideLoop filtered i merged sc =
     (if i < length filtered then
        (if i + 1 < length filtered \<and> filtered ! i = filtered ! (i + 1) then
           (let mergedValue = filtered ! i * 2
            in slideLoop filtered (i + 2) (merged @ [mergedValue]) (sc + mergedValue))
         else slideLoop filtered (i + 1) (merged @ [filtered ! i]) sc)
      else (merged, sc))"
  by pat_completeness auto
termination
  by (relation "measure (\<lambda>(filtered, i, merged, sc). length filtered - i)") auto

text \<open>The second loop pads with zeros up to the length of the input row.\<close>

function padLoop :: "Tile list \<Rightarrow> nat \<Rightarrow> Tile list" where
  "padLoop merged n = (if length merged < n then padLoop (merged @ [0]) n else merged)"
  by pat_completeness auto
termination
  by (relation "measure (\<lambda>(merged, n). n - length merged)") auto

definition slideRow :: "Tile list \<Rightarrow> Tile list \<times> int" where
  "slideRow row =
     (let filtered = filter (\<lambda>cell. cell \<noteq> 0) row;
          (merged, sc) = slideLoop filtered 0 [] 0
      in (padLoop merged (length row), sc))"

text \<open>
  The reduction as the specification words it, for comparison with \<open>slideRow\<close>: a scan
  from the left over the non-zero values in which an equal adjacent pair is replaced by
  one value of double size and both inputs are consumed, and any other value passes
  through. \<open>mergeResults\<close> lists the values the merges produced.
\<close>

fun mergePairs :: "Tile list \<Rightarrow> Tile list" where
  "mergePairs (a # b # rest) =
     (if a = b then (a * 2) # mergePairs rest else a # mergePairs (b # rest))"
| "mergePairs [a] = [a]"
| "mergePairs [] = []"

fun mergeResults :: "Tile list \<Rightarrow> Tile list" where
  "mergeResults (a # b # rest) =
     (if a = b then (a * 2) # mergeResults rest else mergeResults (b # rest))"
| "mergeResults [a] = []"
| "mergeResults [] = []"

text \<open>The values that the same scan passes through without merging them.\<close>

fun passedThrough :: "Tile list \<Rightarrow> Tile list" where
  "passedThrough (a # b # rest) =
     (if a = b then passedThrough rest else a # passedThrough (b # rest))"
| "passedThrough [a] = [a]"
| "passedThrough [] = []"

definition reduceLine :: "Tile list \<Rightarrow> Tile list \<times> int" where
  "reduceLine line =
     (let filtered = filter (\<lambda>cell. cell \<noteq> 0) line;
          out = mergePairs filtered
      in (out @ replicate (length line - length out) 0, sum_list (mergeResults filtered)))"

subsection \<open>Rotation and board equality\<close>

definition rotateCells :: "Board \<Rightarrow> Board" where
  "rotateCells b =
     map (\<lambda>colIndex. rev (map (\<lambda>row. row ! colIndex) b)) [0..<length (b ! 0)]"

text \<open>On an empty board \<^verbatim>\<open>board[0]\<close> is \<^verbatim>\<open>undefined\<close> and calling \<^verbatim>\<open>map\<close> on it throws.\<close>

text \<open>Sequencing of calls that may throw: the first exception ends the computation.\<close>

definition and_then :: "error + 'a \<Rightarrow> ('a \<Rightarrow> error + 'b) \<Rightarrow> error + 'b" where
  "and_then r f = (case r of Inl e \<Rightarrow> Inl e | Inr x \<Rightarrow> f x)"

definition rotateBoard :: "Board \<Rightarrow> error + Board" where
  "rotateBoard b = (if b = [] then Inl TypeError else Inr (rotateCells b))"

text \<open>\<open>rotateBoard\<close> applied \<open>k\<close> times in a row, as \<open>moveUp\<close> and \<open>moveDown\<close> nest it.\<close>

fun rotateTimes :: "nat \<Rightarrow> Board \<Rightarrow> error + Board" where
  "rotateTimes 0 b = Inr b"
| "rotateTimes (Suc k) b = and_then (rotateBoard b) (rotateTimes k)"

text \<open>
  \<^verbatim>\<open>row.every((cell, j) => cell === board2[i][j])\<close> for one row: a cell that the second
  row does not have reads \<^verbatim>\<open>undefined\<close>, which no number equals.
\<close>

fun rowEqual :: "Tile list \<Rightarrow> Tile list \<Rightarrow> bool" where
  "rowEqual [] row2 = True"
| "rowEqual (cell # cells) [] = False"
| "rowEqual (cell # cells) (cell2 # cells2) = (cell = cell2 \<and> rowEqual cells cells2)"

text \<open>
  \<^verbatim>\<open>boardsEqual\<close>: \<^verbatim>\<open>every\<close> stops at the first row that differs. A non-empty row
  of the first board that the second board does not have throws, since \<^verbatim>\<open>board2[i]\<close>
  is \<^verbatim>\<open>undefined\<close> there.
\<close>

fun boardsEqual :: "Board \<Rightarrow> Board \<Rightarrow> error + bool" where
  "boardsEqual [] b2 = Inr True"
| "boardsEqual (row # rows) [] =
     (if row = [] then boardsEqual rows [] else Inl TypeError)"
| "boardsEqual (row # rows) (row2 # rows2) =
     (if rowEqual row row2 then boardsEqual rows rows2 else Inr False)"

subsection \<open>The four moves\<close>

text \<open>\<^verbatim>\<open>board.map\<close> with the running \<^verbatim>\<open>totalScore\<close> threaded through the rows.\<close>

fun moveLeftRows :: "Board \<Rightarrow> int \<Rightarrow> Board \<times> int" where
  "moveLeftRows [] totalScore = ([], totalScore)"
| "moveLeftRows (row # rows) totalScore =
     (let (newRow, sc) = slideRow row;
          (newRows, total) = moveLeftRows rows (totalScore + sc)
      in (newRow # newRows, total))"

definition moveLeft :: "Board \<Rightarrow> Board \<times> int" where
  "moveLeft b = moveLeftRows b 0"

fun moveRightRows :: "Board \<Rightarrow> int \<Rightarrow> Board \<times> int" where
  "moveRightRows [] totalScore = ([], totalScore)"
| "moveRightRows (row # rows) totalScore =
     (let reversed = rev row;
          (newRow, sc) = slideRow reversed;
          (newRows, total) = moveRightRows rows (totalScore + sc)
      in (rev newRow # newRows, total))"

definition moveRight :: "Board \<Rightarrow> Board \<times> int" where
  "moveRight b = moveRightRows b 0"

definition moveUp :: "Board \<Rightarrow> error + Board \<times> int" where
  "moveUp b =
     and_then (rotateBoard b) (\<lambda>r1.
     and_then (rotateBoard r1) (\<lambda>r2.
     and_then (rotateBoard r2) (\<lambda>rotated.
       let (moved, sc) = moveLeft rotated
       in and_then (rotateBoard moved) (\<lambda>result. Inr (result, sc)))))"

definition moveDown :: "Board \<Rightarrow> error + Board \<times> int" where
  "moveDown b =
     and_then (rotateBoard b) (\<lambda>rotated.
       let (moved, sc) = moveLeft rotated
       in and_then (rotateBoard moved) (\<lambda>r1.
          and_then (rotateBoard r1) (\<lambda>r2.
          and_then (rotateBoard r2) (\<lambda>result. Inr (result, sc)))))"

subsection \<open>End of game, victory, and the transition\<close>

definition canMove :: "Board \<Rightarrow> bool" where
  "canMove b =
     (if length (getEmptyCells b) > 0 then True
      else
        let size = length b in
        list_ex (\<lambda>i. list_ex (\<lambda>j.
            (j < size - 1 \<and> b ! i ! j = b ! i ! (j + 1)) \<or>
            (i < size - 1 \<and> b ! i ! j = b ! (i + 1) ! j))
          [0..<size]) [0..<size])"

definition hasWon :: "Board \<Rightarrow> bool" where
  "hasWon b = list_ex (\<lambda>row. list_ex (\<lambda>cell. cell \<ge> 2048) row) b"

text \<open>The \<^verbatim>\<open>switch\<close> of \<^verbatim>\<open>makeMove\<close> (the specification's \<^verbatim>\<open>applyDirection\<close>).\<close>

definition applyDirection :: "Board \<Rightarrow> direction \<Rightarrow> error + Board \<times> int" where
  "applyDirection b d =
     (case d of
        Left \<Rightarrow> Inr (moveLeft b)
      | Right \<Rightarrow> Inr (moveRight b)
      | Up \<Rightarrow> moveUp b
      | Down \<Rightarrow> moveDown b)"

definition makeMove :: "GameState \<Rightarrow> direction \<Rightarrow> draws \<Rightarrow> error + GameState" where
  "makeMove state d rnd =
     (if gameOver state then Inr state
      else
        and_then (applyDirection (board state) d) (\<lambda>result.
        and_then (boardsEqual (fst result) (board state)) (\<lambda>same.
          if same then Inr state
          else
            let newBoard = addRandomTile (fst result) rnd;
                newScore = score state + snd result;
                won' = (\<not> won state \<and> hasWon newBoard);
                gameOver' = (\<not> canMove newBoard)
            in Inr \<lparr>board = newBoard, score = newScore,
                    gameOver = gameOver', won = won'\<rparr>)))"

text \<open>A board of \<open>n\<close> rows of \<open>n\<close> cells.\<close>

definition square :: "nat \<Rightarrow> Board \<Rightarrow> bool" where
  "square n b = (length b = n \<and> list_all (\<lambda>row. length row = n) b)"

text \<open>Some cell of the board is empty.\<close>

definition hasZero :: "Board \<Rightarrow> bool" where
  "hasZero b = (\<exists>row \<in> set b. 0 \<in> set row)"

subsection \<open>\<open>addRandomTile\<close> on references\<close>

text \<open>
  A JavaScript board is a reference to an array of references to row arrays, and
  \<^verbatim>\<open>newBoard[row][col] = value\<close> writes into a row array. Whether a caller's board
  can change under that write depends on which row arrays the new board shares with the
  old one, which the value model above cannot tell. So \<open>addRandomTile\<close> is modelled a
  second time over an explicit store: a list of objects, an address being an index, and
  allocation appending a new object.
\<close>

datatype obj = Cells "Tile list" | Rows "nat list"

type_synonym store = "obj list"

definition alloc :: "store \<Rightarrow> obj \<Rightarrow> store \<times> nat" where
  "alloc h ob = (h @ [ob], length h)"

definition cellsAt :: "store \<Rightarrow> nat \<Rightarrow> Tile list" where
  "cellsAt h r = (case h ! r of Cells cs \<Rightarrow> cs | Rows rs \<Rightarrow> [])"

definition rowsAt :: "store \<Rightarrow> nat \<Rightarrow> nat list" where
  "rowsAt h a = (case h ! a of Rows rs \<Rightarrow> rs | Cells cs \<Rightarrow> [])"

text \<open>The board that a reference denotes, and what makes the reference a board.\<close>

definition boardAt :: "store \<Rightarrow> nat \<Rightarrow> Board" where
  "boardAt h a = map (cellsAt h) (rowsAt h a)"

definition isBoardRef :: "store \<Rightarrow> nat \<Rightarrow> bool" where
  "isBoardRef h a =
     (a < length h \<and>
      (case h ! a of
         Rows rs \<Rightarrow> list_all (\<lambda>r. r < length h \<and> (case h ! r of Cells cs \<Rightarrow> True | Rows rs' \<Rightarrow> False)) rs
       | Cells cs \<Rightarrow> False))"

text \<open>\<^verbatim>\<open>board.map(r => [...r])\<close>: every row is copied into a newly allocated array.\<close>

fun copyRows :: "store \<Rightarrow> nat list \<Rightarrow> store \<times> nat list" where
  "copyRows h [] = (h, [])"
| "copyRows h (r # rs) =
     (let (h1, r') = alloc h (Cells (cellsAt h r));
          (h2, rs') = copyRows h1 rs
      in (h2, r' # rs'))"

definition addRandomTileRef :: "store \<Rightarrow> nat \<Rightarrow> draws \<Rightarrow> store \<times> nat" where
  "addRandomTileRef h a rnd =
     (let emptyCells = getEmptyCells (boardAt h a) in
      if length emptyCells = 0 then (h, a)
      else
        let (row, col) = emptyCells ! nat \<lfloor>fst rnd * real (length emptyCells)\<rfloor>;
            val = (if snd rnd < 9 / 10 then 2 else 4);
            (h1, newRows) = copyRows h (rowsAt h a);
            (h2, newBoard) = alloc h1 (Rows newRows);
            target = rowsAt h2 newBoard ! row
        in (h2[target := Cells ((cellsAt h2 target)[col := val])], newBoard))"

subsection \<open>Vocabulary for the end-of-game test\<close>

text \<open>
  Some cell holds a tile; some cell of an \<open>n\<close> by \<open>n\<close> board equals its right neighbour,
  or the cell below it; and the move in direction \<open>d\<close> returns a board different from
  the one it was given.
\<close>

definition hasTile :: "Board \<Rightarrow> bool" where
  "hasTile b = (\<exists>row \<in> set b. \<exists>cell \<in> set row. cell \<noteq> 0)"

definition equalRight :: "nat \<Rightarrow> Board \<Rightarrow> bool" where
  "equalRight n b = (\<exists>i < n. \<exists>j < n. j + 1 < n \<and> b ! i ! j = b ! i ! (j + 1))"

definition equalBelow :: "nat \<Rightarrow> Board \<Rightarrow> bool" where
  "equalBelow n b = (\<exists>i < n. \<exists>j < n. i + 1 < n \<and> b ! i ! j = b ! (i + 1) ! j)"

definition moveChanges :: "Board \<Rightarrow> direction \<Rightarrow> bool" where
  "moveChanges b d = (case applyDirection b d of Inl e \<Rightarrow> False | Inr result \<Rightarrow> fst result \<noteq> b)"

section \<open>Auxiliary facts\<close>

declare slideLoop.simps [simp del] padLoop.simps [simp del]

lemma padLoop_eq: "padLoop merged n = merged @ replicate (n - length merged) 0"
proof (induction merged n rule: padLoop.induct)
  case (1 merged n)
  show ?case
  proof (cases "length merged < n")
    case True
    then have "n - length merged = Suc (n - Suc (length merged))" by simp
    with True "1" show ?thesis
      by (subst padLoop.simps) (simp add: replicate_app_Cons_same)
  next
    case False
    then show ?thesis by (subst padLoop.simps) simp
  qed
qed

lemma slideLoop_eq:
  "i \<le> length filtered \<Longrightarrow>
   slideLoop filtered i merged sc =
     (merged @ mergePairs (drop i filtered), sc + sum_list (mergeResults (drop i filtered)))"
proof (induction filtered i merged sc rule: slideLoop.induct)
  case (1 filtered i merged sc)
  show ?case
  proof (cases "i < length filtered")
    case False
    with "1.prems" show ?thesis by (subst slideLoop.simps) simp
  next
    case inside: True
    then have d1: "drop i filtered = filtered ! i # drop (Suc i) filtered"
      by (simp add: Cons_nth_drop_Suc)
    show ?thesis
    proof (cases "i + 1 < length filtered")
      case False
      with inside have "drop (Suc i) filtered = []" by simp
      with d1 inside False "1.IH"(2) show ?thesis
        by (subst slideLoop.simps) simp
    next
      case two: True
      then have d2: "drop (Suc i) filtered = filtered ! (Suc i) # drop (Suc (Suc i)) filtered"
        by (simp add: Cons_nth_drop_Suc)
      show ?thesis
      proof (cases "filtered ! i = filtered ! (i + 1)")
        case True
        with inside two d1 d2 "1.IH"(1) show ?thesis
          by (subst slideLoop.simps) (simp add: Let_def)
      next
        case False
        with inside two d1 d2 "1.IH"(2) show ?thesis
          by (subst slideLoop.simps) simp
      qed
    qed
  qed
qed

lemma slideRow_reduceLine: "slideRow line = reduceLine line"
  by (simp add: slideRow_def reduceLine_def slideLoop_eq padLoop_eq Let_def)

lemma length_mergePairs_le: "length (mergePairs xs) \<le> length xs"
  by (induction xs rule: mergePairs.induct) auto

lemma length_mergePairs_half: "length xs \<le> 2 * length (mergePairs xs)"
  by (induction xs rule: mergePairs.induct) auto

lemma sum_mergePairs: "sum_list (mergePairs xs) = sum_list xs"
  by (induction xs rule: mergePairs.induct) auto

lemma sum_mergePairs_split:
  "sum_list (mergePairs xs) = sum_list (passedThrough xs) + sum_list (mergeResults xs)"
  by (induction xs rule: mergePairs.induct) auto

lemma sum_filter_nonzero: "sum_list (filter (\<lambda>c. c \<noteq> 0) (xs :: int list)) = sum_list xs"
  by (induction xs) auto

lemma rowEqual_refl: "rowEqual r r"
  by (induction r) auto

lemma boardsEqual_refl: "boardsEqual b b = Inr True"
  by (induction b) (auto simp: rowEqual_refl)

lemma moveLeftRows_eq:
  "moveLeftRows b t = (map (\<lambda>row. fst (slideRow row)) b, t + sum_list (map (\<lambda>row. snd (slideRow row)) b))"
  by (induction b arbitrary: t) (auto simp: case_prod_beta Let_def)

lemma moveRightRows_eq:
  "moveRightRows b t = (map (\<lambda>row. rev (fst (slideRow (rev row)))) b, t + sum_list (map (\<lambda>row. snd (slideRow (rev row))) b))"
  by (induction b arbitrary: t) (auto simp: case_prod_beta Let_def)



subsection \<open>Square boards and rotation\<close>

lemma square_length: "square n b \<Longrightarrow> length b = n"
  by (simp add: square_def)

lemma square_row: "square n b \<Longrightarrow> i < n \<Longrightarrow> length (b ! i) = n"
  by (simp add: square_def list_all_length)

lemma squareI: "length b = n \<Longrightarrow> (\<And>i. i < n \<Longrightarrow> length (b ! i) = n) \<Longrightarrow> square n b"
  by (simp add: square_def list_all_length)

lemma square_eqI:
  assumes "square n a" and "square n b"
    and "\<And>i j. i < n \<Longrightarrow> j < n \<Longrightarrow> a ! i ! j = b ! i ! j"
  shows "a = b"
proof (rule nth_equalityI)
  show "length a = length b"
    using assms(1,2) by (simp add: square_length)
next
  fix i assume "i < length a"
  then have i: "i < n" using assms(1) by (simp add: square_length)
  show "a ! i = b ! i"
  proof (rule nth_equalityI)
    show "length (a ! i) = length (b ! i)"
      using assms(1,2) i by (simp add: square_row)
  next
    fix j assume "j < length (a ! i)"
    then have "j < n" using assms(1) i by (simp add: square_row)
    with i show "a ! i ! j = b ! i ! j" by (rule assms(3))
  qed
qed

lemma square_rotateCells:
  assumes "square n b" and "0 < n"
  shows "square n (rotateCells b)"
proof -
  from assms have "length (b ! 0) = n" by (simp add: square_row)
  with assms show ?thesis
    by (simp add: rotateCells_def square_def list_all_length)
qed

lemma rotateCells_nth:
  assumes "square n b" and "c < n" and "r < n"
  shows "rotateCells b ! c ! r = b ! (n - 1 - r) ! c"
proof -
  from assms have "length (b ! 0) = n" by (simp add: square_row)
  with assms show ?thesis
    by (simp add: rotateCells_def square_length rev_nth)
qed

lemma rotateCells_four:
  assumes sq: "square n b" and pos: "0 < n"
  shows "rotateCells (rotateCells (rotateCells (rotateCells b))) = b"
proof -
  let ?r1 = "rotateCells b"
  let ?r2 = "rotateCells ?r1"
  let ?r3 = "rotateCells ?r2"
  have s1: "square n ?r1" using sq pos by (rule square_rotateCells)
  have s2: "square n ?r2" using s1 pos by (rule square_rotateCells)
  have s3: "square n ?r3" using s2 pos by (rule square_rotateCells)
  have s4: "square n (rotateCells ?r3)" using s3 pos by (rule square_rotateCells)
  show ?thesis
  proof (rule square_eqI [OF s4 sq])
    fix i j assume ij: "i < n" "j < n"
    then have "rotateCells ?r3 ! i ! j = ?r3 ! (n - 1 - j) ! i"
      by (simp add: rotateCells_nth [OF s3])
    also have "\<dots> = ?r2 ! (n - 1 - i) ! (n - 1 - j)"
      using ij by (simp add: rotateCells_nth [OF s2])
    also have "\<dots> = ?r1 ! (n - 1 - (n - 1 - j)) ! (n - 1 - i)"
      using ij by (simp add: rotateCells_nth [OF s1])
    also have "\<dots> = ?r1 ! j ! (n - 1 - i)"
      using ij by simp
    also have "\<dots> = b ! (n - 1 - (n - 1 - i)) ! j"
      using ij by (simp add: rotateCells_nth [OF sq])
    also have "\<dots> = b ! i ! j"
      using ij by simp
    finally show "rotateCells ?r3 ! i ! j = b ! i ! j" .
  qed
qed

lemma rotateBoard_square:
  "square n b \<Longrightarrow> 0 < n \<Longrightarrow> rotateBoard b = Inr (rotateCells b)"
  by (auto simp: rotateBoard_def square_def)

subsection \<open>One row\<close>

lemma slideRow_fst:
  "fst (slideRow row) =
     mergePairs (filter (\<lambda>cell. cell \<noteq> 0) row)
       @ replicate (length row - length (mergePairs (filter (\<lambda>cell. cell \<noteq> 0) row))) 0"
  by (simp add: slideRow_reduceLine reduceLine_def Let_def)

lemma mergePairs_nonzero: "0 \<notin> set xs \<Longrightarrow> 0 \<notin> set (mergePairs xs)"
  by (induction xs rule: mergePairs.induct) auto

lemma mergePairs_Nil_iff: "mergePairs xs = [] \<longleftrightarrow> xs = []"
  by (induction xs rule: mergePairs.induct) auto

lemma mergePairs_distinct_adj: "distinct_adj xs \<Longrightarrow> mergePairs xs = xs"
  by (induction xs rule: mergePairs.induct) auto

lemma mergePairs_shorter: "\<not> distinct_adj xs \<Longrightarrow> length (mergePairs xs) < length xs"
proof (induction xs rule: mergePairs.induct)
  case (1 a b rest)
  show ?case
  proof (cases "a = b")
    case True
    have "length (mergePairs rest) \<le> length rest" by (rule length_mergePairs_le)
    with True show ?thesis by simp
  next
    case False
    with "1.prems" have "\<not> distinct_adj (b # rest)" by simp
    with False "1.IH"(2) show ?thesis by simp
  qed
qed simp_all

lemma length_merged_le_row:
  "length (mergePairs (filter (\<lambda>cell. cell \<noteq> 0) row)) \<le> length row"
  by (rule order_trans [OF length_mergePairs_le length_filter_le])

lemma length_slideRow: "length (fst (slideRow row)) = length row"
  using length_merged_le_row [of row] by (simp add: slideRow_fst)

lemma filter_nonzero_id: "(0::int) \<notin> set row \<Longrightarrow> filter (\<lambda>cell. cell \<noteq> 0) row = row"
  by (induction row) auto

lemma filter_nonzero_shorter:
  "(0::int) \<in> set row \<Longrightarrow> length (filter (\<lambda>cell. cell \<noteq> 0) row) < length row"
  by (rule length_filter_less [of 0]) auto

lemma slideRow_full:
  assumes "0 \<notin> set row"
  shows "fst (slideRow row) = row \<longleftrightarrow> distinct_adj row"
proof (cases "distinct_adj row")
  case True
  with assms show ?thesis
    by (simp add: slideRow_fst filter_nonzero_id mergePairs_distinct_adj)
next
  case False
  then have "length (mergePairs row) < length row" by (rule mergePairs_shorter)
  then have "0 \<in> set (fst (slideRow row))"
    using assms by (simp add: slideRow_fst filter_nonzero_id)
  with assms False show ?thesis by auto
qed

lemma slideRow_changed_zero:
  assumes "fst (slideRow row) \<noteq> row"
  shows "0 \<in> set (fst (slideRow row))"
proof (cases "0 \<in> set row")
  case True
  then have "length (mergePairs (filter (\<lambda>cell. cell \<noteq> 0) row)) < length row"
    using length_mergePairs_le [of "filter (\<lambda>cell. cell \<noteq> 0) row"] filter_nonzero_shorter [of row]
    by simp
  then show ?thesis by (simp add: slideRow_fst)
next
  case False
  with assms have "\<not> distinct_adj row" by (simp add: slideRow_full)
  then have "length (mergePairs row) < length row" by (rule mergePairs_shorter)
  with False show ?thesis by (simp add: slideRow_fst filter_nonzero_id)
qed

lemma slideRow_hd:
  assumes "\<exists>x \<in> set row. x \<noteq> 0"
  shows "hd (fst (slideRow row)) \<noteq> 0"
proof -
  let ?m = "mergePairs (filter (\<lambda>cell. cell \<noteq> 0) row)"
  from assms have "filter (\<lambda>cell. cell \<noteq> 0) row \<noteq> []" by (simp add: filter_empty_conv)
  then have ne: "?m \<noteq> []" by (simp add: mergePairs_Nil_iff)
  have "0 \<notin> set ?m" by (rule mergePairs_nonzero) simp
  with ne have "hd ?m \<noteq> 0" by (metis hd_in_set)
  with ne show ?thesis by (simp add: slideRow_fst)
qed

lemma slideRow_last:
  assumes "0 \<in> set row"
  shows "last (fst (slideRow row)) = 0"
proof -
  have "length (mergePairs (filter (\<lambda>cell. cell \<noteq> 0) row)) < length row"
    using length_mergePairs_le [of "filter (\<lambda>cell. cell \<noteq> 0) row"]
      filter_nonzero_shorter [OF assms] by simp
  then show ?thesis by (simp add: slideRow_fst)
qed

lemma slideRow_mixed:
  assumes "0 \<in> set row" and "\<exists>x \<in> set row. x \<noteq> 0"
  shows "fst (slideRow row) \<noteq> row \<or> fst (slideRow (rev row)) \<noteq> rev row"
proof (rule ccontr)
  assume "\<not> ?thesis"
  then have same: "fst (slideRow row) = row" and rsame: "fst (slideRow (rev row)) = rev row"
    by simp_all
  from slideRow_last [OF assms(1)] same have "last row = 0" by simp
  moreover from assms(2) have "hd (fst (slideRow (rev row))) \<noteq> 0"
    by (intro slideRow_hd) simp
  with rsame have "last row \<noteq> 0" by (simp add: hd_rev)
  ultimately show False by simp
qed

subsection \<open>Whole boards\<close>

lemma rowEqual_eq: "length r = length r2 \<Longrightarrow> rowEqual r r2 = (r = r2)"
  by (induction r r2 rule: rowEqual.induct) auto

lemma boardsEqual_same_shape:
  "list_all2 (\<lambda>r r2. length r = length r2) a b \<Longrightarrow> boardsEqual a b = Inr (a = b)"
  by (induction a b rule: list_all2_induct) (auto simp: rowEqual_eq)

lemma boardsEqual_square:
  assumes "square n a" and "square n b"
  shows "boardsEqual a b = Inr (a = b)"
proof -
  from assms have "list_all2 (\<lambda>r r2. length r = length r2) a b"
    by (simp add: list_all2_conv_all_nth square_length square_row)
  then show ?thesis by (rule boardsEqual_same_shape)
qed

lemma fst_moveLeft: "fst (moveLeft b) = map (\<lambda>row. fst (slideRow row)) b"
  by (simp add: moveLeft_def moveLeftRows_eq)

lemma fst_moveRight: "fst (moveRight b) = map (\<lambda>row. rev (fst (slideRow (rev row)))) b"
  by (simp add: moveRight_def moveRightRows_eq)

lemma map_fixed_iff: "map f xs = xs \<longleftrightarrow> (\<forall>x \<in> set xs. f x = x)"
  by (induction xs) auto

lemma square_moveLeft: "square n b \<Longrightarrow> square n (fst (moveLeft b))"
  by (simp add: square_def fst_moveLeft list_all_length length_slideRow)

lemma square_moveRight: "square n b \<Longrightarrow> square n (fst (moveRight b))"
  by (simp add: square_def fst_moveRight list_all_length length_slideRow)


lemma getEmptyCells_set:
  "set (getEmptyCells b) = {(i, j). i < length b \<and> j < length (b ! i) \<and> b ! i ! j = 0}"
  by (auto simp: getEmptyCells_def)

lemma getEmptyCells_Nil_iff: "getEmptyCells b = [] \<longleftrightarrow> \<not> hasZero b"
proof -
  have "getEmptyCells b = [] \<longleftrightarrow> set (getEmptyCells b) = {}" by simp
  also have "\<dots> \<longleftrightarrow> \<not> (\<exists>i j. i < length b \<and> j < length (b ! i) \<and> b ! i ! j = 0)"
    by (auto simp: getEmptyCells_set)
  also have "\<dots> \<longleftrightarrow> \<not> hasZero b"
    unfolding hasZero_def by (metis in_set_conv_nth)
  finally show ?thesis .
qed

lemma hasZero_square:
  assumes "square n b"
  shows "hasZero b \<longleftrightarrow> (\<exists>i < n. \<exists>j < n. b ! i ! j = 0)"
proof
  assume "hasZero b"
  then obtain row where "row \<in> set b" "0 \<in> set row" by (auto simp: hasZero_def)
  then obtain i j where "i < length b" "row = b ! i" "j < length row" "row ! j = 0"
    by (metis in_set_conv_nth)
  with assms show "\<exists>i < n. \<exists>j < n. b ! i ! j = 0"
    by (metis square_length square_row)
next
  assume "\<exists>i < n. \<exists>j < n. b ! i ! j = 0"
  then obtain i j where ij: "i < n" "j < n" "b ! i ! j = 0" by blast
  with assms have "b ! i \<in> set b" "0 \<in> set (b ! i)"
    by (metis nth_mem square_length, metis nth_mem square_row)
  then show "hasZero b" by (auto simp: hasZero_def)
qed

lemma hasZero_rotateCells:
  assumes "square n b" and "0 < n"
  shows "hasZero (rotateCells b) \<longleftrightarrow> hasZero b"
proof -
  have sq: "square n (rotateCells b)" using assms by (rule square_rotateCells)
  show ?thesis
  proof
    assume "hasZero (rotateCells b)"
    then obtain c r where cr: "c < n" "r < n" "rotateCells b ! c ! r = 0"
      by (auto simp: hasZero_square [OF sq])
    then have "b ! (n - 1 - r) ! c = 0" by (simp add: rotateCells_nth [OF assms(1)])
    moreover from cr have "n - 1 - r < n" by simp
    ultimately have "\<exists>i < n. \<exists>j < n. b ! i ! j = 0" using cr(1) by blast
    then show "hasZero b" by (simp add: hasZero_square [OF assms(1)])
  next
    assume "hasZero b"
    then obtain i j where ij: "i < n" "j < n" "b ! i ! j = 0"
      by (auto simp: hasZero_square [OF assms(1)])
    then have "rotateCells b ! j ! (n - 1 - i) = 0"
      by (simp add: rotateCells_nth [OF assms(1)])
    moreover from ij have "n - 1 - i < n" by simp
    ultimately have "\<exists>c < n. \<exists>r < n. rotateCells b ! c ! r = 0" using ij(2) by blast
    then show "hasZero (rotateCells b)" by (simp add: hasZero_square [OF sq])
  qed
qed

lemma moveLeft_changed_zero:
  assumes "fst (moveLeft b) \<noteq> b"
  shows "hasZero (fst (moveLeft b))"
proof -
  from assms obtain row where "row \<in> set b" "fst (slideRow row) \<noteq> row"
    by (auto simp: fst_moveLeft map_fixed_iff)
  then show ?thesis
    by (auto simp: hasZero_def fst_moveLeft dest: slideRow_changed_zero)
qed

lemma moveRight_changed_zero:
  assumes "fst (moveRight b) \<noteq> b"
  shows "hasZero (fst (moveRight b))"
proof -
  from assms obtain row where row: "row \<in> set b" "rev (fst (slideRow (rev row))) \<noteq> row"
    by (auto simp: fst_moveRight map_fixed_iff)
  then have "fst (slideRow (rev row)) \<noteq> rev row" by auto
  then have "0 \<in> set (rev (fst (slideRow (rev row))))"
    by (simp add: slideRow_changed_zero)
  with row(1) show ?thesis
    unfolding hasZero_def fst_moveRight by (intro bexI [of _ "rev (fst (slideRow (rev row)))"]) auto
qed

subsection \<open>The vertical moves on a square board\<close>

lemma rotateCells_inj:
  assumes "square n x" and "square n y" and "0 < n"
    and "rotateCells x = rotateCells y"
  shows "x = y"
proof -
  have "rotateCells (rotateCells (rotateCells (rotateCells x)))
      = rotateCells (rotateCells (rotateCells (rotateCells y)))"
    using assms(4) by simp
  then show ?thesis
    by (simp add: rotateCells_four [OF assms(1,3)] rotateCells_four [OF assms(2,3)])
qed

lemma moveUp_square:
  assumes "square n b" and "0 < n"
  shows "moveUp b =
    Inr (rotateCells (fst (moveLeft (rotateCells (rotateCells (rotateCells b))))),
         snd (moveLeft (rotateCells (rotateCells (rotateCells b)))))"
proof -
  let ?r1 = "rotateCells b"
  let ?r2 = "rotateCells ?r1"
  let ?r3 = "rotateCells ?r2"
  have s1: "square n ?r1" using assms by (rule square_rotateCells)
  have s2: "square n ?r2" using s1 assms(2) by (rule square_rotateCells)
  have s3: "square n ?r3" using s2 assms(2) by (rule square_rotateCells)
  have sm: "square n (fst (moveLeft ?r3))" using s3 by (rule square_moveLeft)
  show ?thesis
    by (simp add: moveUp_def and_then_def case_prod_beta
        rotateBoard_square [OF assms] rotateBoard_square [OF s1 assms(2)]
        rotateBoard_square [OF s2 assms(2)] rotateBoard_square [OF sm assms(2)])
qed

lemma moveDown_square:
  assumes "square n b" and "0 < n"
  shows "moveDown b =
    Inr (rotateCells (rotateCells (rotateCells (fst (moveLeft (rotateCells b))))),
         snd (moveLeft (rotateCells b)))"
proof -
  let ?m = "fst (moveLeft (rotateCells b))"
  have s1: "square n (rotateCells b)" using assms by (rule square_rotateCells)
  have sm: "square n ?m" using s1 by (rule square_moveLeft)
  have t1: "square n (rotateCells ?m)" using sm assms(2) by (rule square_rotateCells)
  have t2: "square n (rotateCells (rotateCells ?m))" using t1 assms(2) by (rule square_rotateCells)
  show ?thesis
    by (simp add: moveDown_def and_then_def case_prod_beta
        rotateBoard_square [OF assms] rotateBoard_square [OF sm assms(2)]
        rotateBoard_square [OF t1 assms(2)] rotateBoard_square [OF t2 assms(2)])
qed

lemma moveUp_same_iff:
  assumes "square n b" and "0 < n"
  shows "rotateCells (fst (moveLeft (rotateCells (rotateCells (rotateCells b))))) = b
    \<longleftrightarrow> fst (moveLeft (rotateCells (rotateCells (rotateCells b))))
          = rotateCells (rotateCells (rotateCells b))"
proof -
  let ?r3 = "rotateCells (rotateCells (rotateCells b))"
  have s3: "square n ?r3"
    using assms by (intro square_rotateCells)
  have sm: "square n (fst (moveLeft ?r3))" using s3 by (rule square_moveLeft)
  have rb: "rotateCells ?r3 = b" using assms by (rule rotateCells_four)
  show ?thesis
  proof
    assume "rotateCells (fst (moveLeft ?r3)) = b"
    with rb have "rotateCells (fst (moveLeft ?r3)) = rotateCells ?r3" by simp
    with sm s3 assms(2) show "fst (moveLeft ?r3) = ?r3" by (rule rotateCells_inj)
  next
    assume "fst (moveLeft ?r3) = ?r3"
    with rb show "rotateCells (fst (moveLeft ?r3)) = b" by simp
  qed
qed

lemma moveDown_same_iff:
  assumes "square n b" and "0 < n"
  shows "rotateCells (rotateCells (rotateCells (fst (moveLeft (rotateCells b))))) = b
    \<longleftrightarrow> fst (moveLeft (rotateCells b)) = rotateCells b"
proof -
  let ?m = "fst (moveLeft (rotateCells b))"
  have s1: "square n (rotateCells b)" using assms by (rule square_rotateCells)
  have sm: "square n ?m" using s1 by (rule square_moveLeft)
  show ?thesis
  proof
    assume "rotateCells (rotateCells (rotateCells ?m)) = b"
    then have "rotateCells (rotateCells (rotateCells (rotateCells ?m))) = rotateCells b"
      by simp
    then show "?m = rotateCells b" by (simp add: rotateCells_four [OF sm assms(2)])
  next
    assume "?m = rotateCells b"
    then show "rotateCells (rotateCells (rotateCells ?m)) = b"
      by (simp add: rotateCells_four [OF assms])
  qed
qed

lemma applyDirection_square:
  assumes "square n b" and "applyDirection b d = Inr (b', gained)"
  shows "square n b'"
proof (cases "n = 0")
  case True
  with assms(1) have "b = []" by (simp add: square_def)
  with assms(2) have "b' = []"
    by (cases d) (auto simp: applyDirection_def moveUp_def moveDown_def rotateBoard_def
        and_then_def fst_moveLeft fst_moveRight prod_eq_iff)
  with True show ?thesis by (simp add: square_def)
next
  case False
  then have pos: "0 < n" by simp
  show ?thesis
  proof (cases d)
    case Left
    with assms(2) have "b' = fst (moveLeft b)" by (auto simp: applyDirection_def)
    with assms(1) show ?thesis by (simp add: square_moveLeft)
  next
    case Right
    with assms(2) have "b' = fst (moveRight b)" by (auto simp: applyDirection_def)
    with assms(1) show ?thesis by (simp add: square_moveRight)
  next
    case Up
    with assms(2) have "b' = rotateCells (fst (moveLeft (rotateCells (rotateCells (rotateCells b)))))"
      by (simp add: applyDirection_def moveUp_square [OF assms(1) pos])
    with assms(1) pos show ?thesis
      by (simp add: square_rotateCells square_moveLeft)
  next
    case Down
    with assms(2) have "b' = rotateCells (rotateCells (rotateCells (fst (moveLeft (rotateCells b)))))"
      by (simp add: applyDirection_def moveDown_square [OF assms(1) pos])
    with assms(1) pos show ?thesis
      by (simp add: square_rotateCells square_moveLeft)
  qed
qed

lemma applyDirection_changed_zero:
  assumes "square n b" and "applyDirection b d = Inr (b', gained)" and "b' \<noteq> b"
  shows "hasZero b'"
proof (cases d)
  case Left
  with assms(2) have "b' = fst (moveLeft b)" by (auto simp: applyDirection_def)
  with assms(3) show ?thesis by (simp add: moveLeft_changed_zero)
next
  case Right
  with assms(2) have "b' = fst (moveRight b)" by (auto simp: applyDirection_def)
  with assms(3) show ?thesis by (simp add: moveRight_changed_zero)
next
  case Up
  have pos: "0 < n"
  proof (rule ccontr)
    assume "\<not> 0 < n"
    with assms(1) have "b = []" by (simp add: square_def)
    with assms(2) Up show False
      by (simp add: applyDirection_def moveUp_def rotateBoard_def and_then_def)
  qed
  let ?r3 = "rotateCells (rotateCells (rotateCells b))"
  let ?m = "fst (moveLeft ?r3)"
  have s3: "square n ?r3" using assms(1) pos by (intro square_rotateCells)
  have sm: "square n ?m" using s3 by (rule square_moveLeft)
  from assms(2) Up have b': "b' = rotateCells ?m"
    by (simp add: applyDirection_def moveUp_square [OF assms(1) pos])
  with assms(3) have "?m \<noteq> ?r3" by (simp add: moveUp_same_iff [OF assms(1) pos])
  then have "hasZero ?m" by (rule moveLeft_changed_zero)
  with b' show ?thesis by (simp add: hasZero_rotateCells [OF sm pos])
next
  case Down
  have pos: "0 < n"
  proof (rule ccontr)
    assume "\<not> 0 < n"
    with assms(1) have "b = []" by (simp add: square_def)
    with assms(2) Down show False
      by (simp add: applyDirection_def moveDown_def rotateBoard_def and_then_def)
  qed
  let ?m = "fst (moveLeft (rotateCells b))"
  have s1: "square n (rotateCells b)" using assms(1) pos by (rule square_rotateCells)
  have sm: "square n ?m" using s1 by (rule square_moveLeft)
  have t1: "square n (rotateCells ?m)" using sm pos by (rule square_rotateCells)
  have t2: "square n (rotateCells (rotateCells ?m))" using t1 pos by (rule square_rotateCells)
  from assms(2) Down have b': "b' = rotateCells (rotateCells (rotateCells ?m))"
    by (simp add: applyDirection_def moveDown_square [OF assms(1) pos])
  with assms(3) have "?m \<noteq> rotateCells b" by (simp add: moveDown_same_iff [OF assms(1) pos])
  then have "hasZero ?m" by (rule moveLeft_changed_zero)
  with b' show ?thesis
    by (simp add: hasZero_rotateCells [OF sm pos] hasZero_rotateCells [OF t1 pos]
        hasZero_rotateCells [OF t2 pos])
qed

subsection \<open>The random tile\<close>

lemma draw_index:
  assumes "unit_draw u" and "0 < len"
  shows "nat \<lfloor>u * real len\<rfloor> < len"
proof -
  from assms have "0 \<le> u * real len" by (simp add: unit_draw_def)
  then have nonneg: "0 \<le> \<lfloor>u * real len\<rfloor>" by simp
  from assms have "u * real len < 1 * real len"
    by (intro mult_strict_right_mono) (simp_all add: unit_draw_def)
  then have "\<lfloor>u * real len\<rfloor> < int len" by (simp add: floor_less_iff)
  with nat_less_iff [OF nonneg, of len] show ?thesis by blast
qed

lemma addRandomTile_full: "getEmptyCells b = [] \<Longrightarrow> addRandomTile b rnd = b"
  by (simp add: addRandomTile_def)

lemma addRandomTile_spawn:
  assumes "getEmptyCells b \<noteq> []" and "unit_draw (fst rnd)"
  shows "\<exists>i j v. (i, j) \<in> set (getEmptyCells b) \<and> (v = 2 \<or> v = 4)
            \<and> addRandomTile b rnd = b[i := (b ! i)[j := v]]"
proof -
  let ?k = "nat \<lfloor>fst rnd * real (length (getEmptyCells b))\<rfloor>"
  obtain i j where ij: "getEmptyCells b ! ?k = (i, j)" by (cases "getEmptyCells b ! ?k")
  from assms have "?k < length (getEmptyCells b)" by (simp add: draw_index)
  with ij have "(i, j) \<in> set (getEmptyCells b)" by (metis nth_mem)
  moreover have "addRandomTile b rnd = b[i := (b ! i)[j := (if snd rnd < 9 / 10 then 2 else 4)]]"
    using assms(1) ij by (simp add: addRandomTile_def Let_def)
  ultimately show ?thesis by (metis (full_types))
qed

lemma makeMove_accepted:
  assumes "\<not> gameOver s" and "applyDirection (board s) d = Inr (b, gained)"
    and "boardsEqual b (board s) = Inr False"
  shows "makeMove s d rnd =
    Inr \<lparr>board = addRandomTile b rnd, score = score s + gained,
         gameOver = (\<not> canMove (addRandomTile b rnd)),
         won = (\<not> won s \<and> hasWon (addRandomTile b rnd))\<rparr>"
  using assms by (simp add: makeMove_def and_then_def Let_def)

subsection \<open>The store\<close>

lemma cellsAt_append: "r < length h \<Longrightarrow> cellsAt (h @ h') r = cellsAt h r"
  by (simp add: cellsAt_def nth_append)

lemma copyRows_eq:
  "\<forall>r \<in> set rs. r < length h \<Longrightarrow>
   copyRows h rs = (h @ map (\<lambda>r. Cells (cellsAt h r)) rs, [length h..<length h + length rs])"
proof (induction rs arbitrary: h)
  case Nil
  show ?case by simp
next
  case (Cons r rs)
  let ?h1 = "h @ [Cells (cellsAt h r)]"
  from Cons.prems have old: "\<forall>x \<in> set rs. x < length h" and "r < length h" by simp_all
  then have "\<forall>x \<in> set rs. x < length ?h1" by auto
  then have "copyRows ?h1 rs =
      (?h1 @ map (\<lambda>x. Cells (cellsAt ?h1 x)) rs, [length ?h1..<length ?h1 + length rs])"
    by (rule Cons.IH)
  moreover have "map (\<lambda>x. Cells (cellsAt ?h1 x)) rs = map (\<lambda>x. Cells (cellsAt h x)) rs"
    using old by (simp add: cellsAt_append)
  moreover have "[length h..<length h + length (r # rs)]
      = length h # [length ?h1..<length ?h1 + length rs]"
    by (simp add: upt_conv_Cons del: upt_Suc)
  ultimately show ?case
    by (simp add: alloc_def del: upt_Suc)
qed

lemma isBoardRef_rows:
  assumes "isBoardRef h a"
  shows "a < length h" and "h ! a = Rows (rowsAt h a)"
    and "\<forall>r \<in> set (rowsAt h a). r < length h"
  using assms by (auto simp: isBoardRef_def rowsAt_def list_all_iff split: obj.splits)

lemma getEmptyCells_bounds:
  "(i, j) \<in> set (getEmptyCells b) \<Longrightarrow> i < length b \<and> j < length (b ! i) \<and> b ! i ! j = 0"
  by (simp add: getEmptyCells_set)

lemma addRandomTileRef_full:
  "getEmptyCells (boardAt h a) = [] \<Longrightarrow> addRandomTileRef h a rnd = (h, a)"
  by (simp add: addRandomTileRef_def)

lemma addRandomTileRef_spawn:
  assumes ref: "isBoardRef h a" and ne: "getEmptyCells (boardAt h a) \<noteq> []"
    and u: "unit_draw (fst rnd)"
  shows "\<exists>i j v. (i, j) \<in> set (getEmptyCells (boardAt h a)) \<and> (v = 2 \<or> v = 4)
     \<and> addRandomTile (boardAt h a) rnd = (boardAt h a)[i := (boardAt h a ! i)[j := v]]
     \<and> addRandomTileRef h a rnd =
         ((h @ map (\<lambda>r. Cells (cellsAt h r)) (rowsAt h a)
             @ [Rows [length h..<length h + length (rowsAt h a)]])
            [length h + i := Cells ((boardAt h a ! i)[j := v])],
          length h + length (rowsAt h a))"
proof -
  let ?b = "boardAt h a"
  let ?rs = "rowsAt h a"
  let ?k = "nat \<lfloor>fst rnd * real (length (getEmptyCells ?b))\<rfloor>"
  let ?v = "if snd rnd < 9 / 10 then 2 else 4 :: int"
  let ?h1 = "h @ map (\<lambda>r. Cells (cellsAt h r)) ?rs"
  let ?h2 = "?h1 @ [Rows [length h..<length h + length ?rs]]"
  obtain i j where ij: "getEmptyCells ?b ! ?k = (i, j)" by (cases "getEmptyCells ?b ! ?k")
  from ne u have "?k < length (getEmptyCells ?b)" by (simp add: draw_index)
  with ij have mem: "(i, j) \<in> set (getEmptyCells ?b)" by (metis nth_mem)
  then have "i < length ?b" by (simp add: getEmptyCells_bounds)
  then have i: "i < length ?rs" by (simp add: boardAt_def)
  have pure: "addRandomTile ?b rnd = ?b[i := (?b ! i)[j := ?v]]"
    using ne ij by (simp add: addRandomTile_def Let_def)
  have copy: "copyRows h ?rs = (?h1, [length h..<length h + length ?rs])"
    using isBoardRef_rows(3) [OF ref] by (rule copyRows_eq)
  have len1: "length ?h1 = length h + length ?rs" by simp
  have rows2: "rowsAt ?h2 (length h + length ?rs) = [length h..<length h + length ?rs]"
    by (simp add: rowsAt_def nth_append)
  have target: "[length h..<length h + length ?rs] ! i = length h + i"
    using i by simp
  have "?h2 ! (length h + i) = Cells (cellsAt h (?rs ! i))"
    using i by (simp add: nth_append)
  then have cells2: "cellsAt ?h2 (length h + i) = ?b ! i"
    using i by (simp add: cellsAt_def boardAt_def)
  have "addRandomTileRef h a rnd =
      (let target = rowsAt ?h2 (length ?h1) ! i
       in (?h2[target := Cells ((cellsAt ?h2 target)[j := ?v])], length ?h1))"
    using ne by (simp add: addRandomTileRef_def Let_def alloc_def ij copy del: upt_Suc)
  also have "\<dots> = (?h2[length h + i := Cells ((?b ! i)[j := ?v])], length h + length ?rs)"
    unfolding Let_def len1 rows2 target cells2 ..
  finally have "addRandomTileRef h a rnd =
      (?h2[length h + i := Cells ((?b ! i)[j := ?v])], length h + length ?rs)" .
  with mem pure show ?thesis
    by (intro exI [of _ i] exI [of _ j] exI [of _ ?v]) simp
qed

lemma spawned_store_old:
  "take (length h) ((h @ h')[length h + i := ob]) = h"
  by (simp add: list_update_append)

lemma spawned_store_board:
  assumes "\<forall>r \<in> set rs. r < length h" and "i < length rs"
  shows "boardAt ((h @ map (\<lambda>r. Cells (cellsAt h r)) rs @ [Rows [length h..<length h + length rs]])
                    [length h + i := Cells cs])
                 (length h + length rs)
         = (map (cellsAt h) rs)[i := cs]"
proof -
  let ?h2 = "h @ map (\<lambda>r. Cells (cellsAt h r)) rs @ [Rows [length h..<length h + length rs]]"
  let ?h3 = "?h2[length h + i := Cells cs]"
  have rows: "rowsAt ?h3 (length h + length rs) = [length h..<length h + length rs]"
    using assms(2) by (simp add: rowsAt_def nth_append list_update_append del: upt_Suc)
  have "cellsAt ?h3 (length h + k) = (map (cellsAt h) rs)[i := cs] ! k" if "k < length rs" for k
  proof (cases "k = i")
    case True
    with that show ?thesis by (simp add: cellsAt_def nth_append list_update_append)
  next
    case False
    with that assms(2) show ?thesis
      by (simp add: cellsAt_def nth_append list_update_append)
  qed
  then have "map (cellsAt ?h3) [length h..<length h + length rs] = (map (cellsAt h) rs)[i := cs]"
    by (intro nth_equalityI) simp_all
  with rows show ?thesis by (simp add: boardAt_def)
qed

lemma boardAt_old:
  assumes "isBoardRef h a" and "take (length h) h' = h"
  shows "boardAt h' a = boardAt h a"
proof -
  have old: "h' ! x = h ! x" if "x < length h" for x
    using that assms(2) by (metis nth_take)
  from isBoardRef_rows [OF assms(1)] have "a < length h" "\<forall>r \<in> set (rowsAt h a). r < length h"
    by simp_all
  then show ?thesis
    by (simp add: boardAt_def rowsAt_def cellsAt_def old)
qed

lemma cell_update_frame:
  assumes "i < length b"
  shows "(i', j') \<noteq> (i, j) \<Longrightarrow> b[i := (b ! i)[j := v]] ! i' ! j' = b ! i' ! j'"
  using assms by (cases "i' = i") auto

subsection \<open>Which moves change a board\<close>

lemma moveLeft_fixed_iff:
  "fst (moveLeft x) = x \<longleftrightarrow> (\<forall>row \<in> set x. fst (slideRow row) = row)"
  by (simp add: fst_moveLeft map_fixed_iff)

lemma moveRight_fixed_iff:
  "fst (moveRight x) = x \<longleftrightarrow> (\<forall>row \<in> set x. fst (slideRow (rev row)) = rev row)"
proof -
  have "rev (fst (slideRow (rev row))) = row \<longleftrightarrow> fst (slideRow (rev row)) = rev row" for row
    by (rule rev_swap)
  then show ?thesis by (simp add: fst_moveRight map_fixed_iff)
qed

lemma rotateCells_twice:
  assumes "square n y" and "0 < n"
  shows "rotateCells (rotateCells y) = rev (map rev y)"
proof (rule square_eqI [of n])
  show "square n (rotateCells (rotateCells y))"
    using assms by (intro square_rotateCells)
  show "square n (rev (map rev y))"
    using assms(1) by (simp add: square_def list_all_iff)
next
  fix i j assume ij: "i < n" "j < n"
  have s1: "square n (rotateCells y)" using assms by (rule square_rotateCells)
  have "rotateCells (rotateCells y) ! i ! j = rotateCells y ! (n - 1 - j) ! i"
    using ij by (simp add: rotateCells_nth [OF s1])
  also have "\<dots> = y ! (n - 1 - i) ! (n - 1 - j)"
    using ij by (simp add: rotateCells_nth [OF assms(1)])
  also have "\<dots> = rev (map rev y) ! i ! j"
    using ij assms(1) by (simp add: rev_nth square_length square_row)
  finally show "rotateCells (rotateCells y) ! i ! j = rev (map rev y) ! i ! j" .
qed

lemma moveUp_as_right:
  assumes "square n g" and "0 < n"
  shows "fst (moveLeft (rotateCells (rotateCells (rotateCells g))))
           = rotateCells (rotateCells (rotateCells g))
     \<longleftrightarrow> fst (moveRight (rotateCells g)) = rotateCells g"
proof -
  have s1: "square n (rotateCells g)" using assms by (rule square_rotateCells)
  have "rotateCells (rotateCells (rotateCells g)) = rev (map rev (rotateCells g))"
    using s1 assms(2) by (rule rotateCells_twice)
  then show ?thesis
    by (simp add: moveLeft_fixed_iff moveRight_fixed_iff)
qed

lemma moveChanges_Left: "moveChanges g Left \<longleftrightarrow> fst (moveLeft g) \<noteq> g"
  by (simp add: moveChanges_def applyDirection_def)

lemma moveChanges_Right: "moveChanges g Right \<longleftrightarrow> fst (moveRight g) \<noteq> g"
  by (simp add: moveChanges_def applyDirection_def)

lemma moveChanges_Down:
  assumes "square n g" and "0 < n"
  shows "moveChanges g Down \<longleftrightarrow> fst (moveLeft (rotateCells g)) \<noteq> rotateCells g"
  by (simp add: moveChanges_def applyDirection_def moveDown_square [OF assms]
      moveDown_same_iff [OF assms])

lemma moveChanges_Up:
  assumes "square n g" and "0 < n"
  shows "moveChanges g Up \<longleftrightarrow> fst (moveRight (rotateCells g)) \<noteq> rotateCells g"
  by (simp add: moveChanges_def applyDirection_def moveUp_square [OF assms]
      moveUp_same_iff [OF assms] moveUp_as_right [OF assms])

lemma moveChanges_empty: "\<not> moveChanges [] d"
  by (cases d)
    (simp_all add: moveChanges_def applyDirection_def fst_moveLeft fst_moveRight
      moveUp_def moveDown_def rotateBoard_def and_then_def)

lemma some_move_changes_iff:
  assumes "square n g" and "0 < n"
  shows "(\<exists>d. moveChanges g d) \<longleftrightarrow>
     (fst (moveLeft g) \<noteq> g \<or> fst (moveRight g) \<noteq> g)
     \<or> (fst (moveLeft (rotateCells g)) \<noteq> rotateCells g
        \<or> fst (moveRight (rotateCells g)) \<noteq> rotateCells g)"
proof
  assume "\<exists>d. moveChanges g d"
  then obtain d where "moveChanges g d" ..
  then show "(fst (moveLeft g) \<noteq> g \<or> fst (moveRight g) \<noteq> g)
     \<or> (fst (moveLeft (rotateCells g)) \<noteq> rotateCells g
        \<or> fst (moveRight (rotateCells g)) \<noteq> rotateCells g)"
    by (cases d)
      (simp_all add: moveChanges_Left moveChanges_Right moveChanges_Up [OF assms]
        moveChanges_Down [OF assms])
next
  assume "(fst (moveLeft g) \<noteq> g \<or> fst (moveRight g) \<noteq> g)
     \<or> (fst (moveLeft (rotateCells g)) \<noteq> rotateCells g
        \<or> fst (moveRight (rotateCells g)) \<noteq> rotateCells g)"
  then have "moveChanges g Left \<or> moveChanges g Right \<or> moveChanges g Down \<or> moveChanges g Up"
    by (auto simp: moveChanges_Left moveChanges_Right moveChanges_Up [OF assms]
        moveChanges_Down [OF assms])
  then show "\<exists>d. moveChanges g d" by blast
qed

lemma rows_distinct_adj_iff:
  assumes "square n x"
  shows "(\<forall>row \<in> set x. distinct_adj row) \<longleftrightarrow> \<not> equalRight n x"
proof -
  have "(\<forall>row \<in> set x. distinct_adj row)
      \<longleftrightarrow> (\<forall>i < n. \<forall>j. Suc j < n \<longrightarrow> x ! i ! j \<noteq> x ! i ! Suc j)"
    using assms
    by (simp add: all_set_conv_all_nth distinct_adj_conv_nth square_length square_row)
  also have "\<dots> \<longleftrightarrow> \<not> equalRight n x"
    unfolding equalRight_def by (auto dest: Suc_lessD)
  finally show ?thesis .
qed

lemma full_board_horizontal:
  assumes "square n x" and "\<not> hasZero x"
  shows "(fst (moveLeft x) \<noteq> x \<or> fst (moveRight x) \<noteq> x) \<longleftrightarrow> equalRight n x"
proof -
  have nz: "0 \<notin> set row" if "row \<in> set x" for row
    using that assms(2) by (auto simp: hasZero_def)
  have l: "fst (slideRow row) = row \<longleftrightarrow> distinct_adj row" if "row \<in> set x" for row
    using nz [OF that] by (rule slideRow_full)
  have r: "fst (slideRow (rev row)) = rev row \<longleftrightarrow> distinct_adj row" if "row \<in> set x" for row
    using nz [OF that] slideRow_full [of "rev row"] by simp
  have "fst (moveLeft x) = x \<longleftrightarrow> (\<forall>row \<in> set x. distinct_adj row)"
    unfolding moveLeft_fixed_iff using l by blast
  moreover have "fst (moveRight x) = x \<longleftrightarrow> (\<forall>row \<in> set x. distinct_adj row)"
    unfolding moveRight_fixed_iff using r by blast
  ultimately show ?thesis
    using rows_distinct_adj_iff [OF assms(1)] by blast
qed

lemma mixed_row_horizontal:
  assumes "row \<in> set x" and "0 \<in> set row" and "\<exists>cell \<in> set row. cell \<noteq> 0"
  shows "fst (moveLeft x) \<noteq> x \<or> fst (moveRight x) \<noteq> x"
  using slideRow_mixed [OF assms(2,3)] assms(1)
  by (auto simp: moveLeft_fixed_iff moveRight_fixed_iff)

lemma equalRight_rotateCells:
  assumes "square n x" and "0 < n"
  shows "equalRight n (rotateCells x) \<longleftrightarrow> equalBelow n x"
proof
  assume "equalRight n (rotateCells x)"
  then obtain c r where cr: "c < n" "r + 1 < n" "rotateCells x ! c ! r = rotateCells x ! c ! (r + 1)"
    by (auto simp: equalRight_def)
  then have "x ! (n - 1 - r) ! c = x ! (n - 1 - (r + 1)) ! c"
    by (simp add: rotateCells_nth [OF assms(1)])
  moreover from cr(2) have "n - 1 - r = (n - 1 - (r + 1)) + 1" "n - 1 - (r + 1) < n" by simp_all
  ultimately have "n - 1 - (r + 1) < n \<and> c < n \<and> (n - 1 - (r + 1)) + 1 < n
      \<and> x ! (n - 1 - (r + 1)) ! c = x ! ((n - 1 - (r + 1)) + 1) ! c"
    using cr(1,2) by simp
  then show "equalBelow n x" unfolding equalBelow_def by blast
next
  assume "equalBelow n x"
  then obtain i j where ij: "j < n" "i + 1 < n" "x ! i ! j = x ! (i + 1) ! j"
    by (auto simp: equalBelow_def)
  let ?r = "n - 1 - (i + 1)"
  from ij(2) have r: "?r + 1 < n" "?r < n" "n - 1 - ?r = i + 1" "n - 1 - (?r + 1) = i" by simp_all
  have "rotateCells x ! j ! ?r = x ! (n - 1 - ?r) ! j"
    using ij(1) r(2) by (rule rotateCells_nth [OF assms(1)])
  moreover have "rotateCells x ! j ! (?r + 1) = x ! (n - 1 - (?r + 1)) ! j"
    using ij(1) r(1) by (rule rotateCells_nth [OF assms(1)])
  ultimately have "rotateCells x ! j ! ?r = rotateCells x ! j ! (?r + 1)"
    using ij(3) r(3,4) by simp
  with ij(1) r(1,2) show "equalRight n (rotateCells x)"
    unfolding equalRight_def by blast
qed

lemma hasTile_square:
  assumes "square n b"
  shows "hasTile b \<longleftrightarrow> (\<exists>i < n. \<exists>j < n. b ! i ! j \<noteq> 0)"
proof
  assume "hasTile b"
  then obtain row cell where "row \<in> set b" "cell \<in> set row" "cell \<noteq> 0"
    by (auto simp: hasTile_def)
  then obtain i j where "i < length b" "row = b ! i" "j < length row" "row ! j \<noteq> 0"
    by (metis in_set_conv_nth)
  with assms show "\<exists>i < n. \<exists>j < n. b ! i ! j \<noteq> 0"
    by (metis square_length square_row)
next
  assume "\<exists>i < n. \<exists>j < n. b ! i ! j \<noteq> 0"
  then obtain i j where ij: "i < n" "j < n" "b ! i ! j \<noteq> 0" by blast
  with assms have "b ! i \<in> set b" "b ! i ! j \<in> set (b ! i)"
    by (metis nth_mem square_length, metis nth_mem square_row)
  with ij(3) show "hasTile b" by (auto simp: hasTile_def)
qed

lemma zero_and_tile_change:
  assumes sq: "square n g" and pos: "0 < n" and z: "hasZero g" and t: "hasTile g"
  shows "\<exists>d. moveChanges g d"
proof -
  from z obtain i0 j0 where z0: "i0 < n" "j0 < n" "g ! i0 ! j0 = 0"
    by (auto simp: hasZero_square [OF sq])
  from t obtain i1 j1 where t1: "i1 < n" "j1 < n" "g ! i1 ! j1 \<noteq> 0"
    by (auto simp: hasTile_square [OF sq])
  have len: "length (g ! i0) = n" using sq z0(1) by (rule square_row)
  show ?thesis
  proof (cases "g ! i0 ! j1 = 0")
    case False
    have "g ! i0 \<in> set g" using sq z0(1) by (simp add: square_length)
    moreover have "0 \<in> set (g ! i0)" using z0 len by (metis nth_mem)
    moreover have "\<exists>cell \<in> set (g ! i0). cell \<noteq> 0" using False t1(2) len by (metis nth_mem)
    ultimately have "fst (moveLeft g) \<noteq> g \<or> fst (moveRight g) \<noteq> g"
      by (rule mixed_row_horizontal)
    then show ?thesis by (simp add: some_move_changes_iff [OF sq pos])
  next
    case True
    let ?y = "rotateCells g"
    have sy: "square n ?y" using sq pos by (rule square_rotateCells)
    have leny: "length (?y ! j1) = n" using sy t1(2) by (rule square_row)
    have a: "?y ! j1 ! (n - 1 - i0) = 0"
      using z0(1) t1(2) True by (simp add: rotateCells_nth [OF sq])
    have b: "?y ! j1 ! (n - 1 - i1) \<noteq> 0"
      using t1 by (simp add: rotateCells_nth [OF sq])
    have "n - 1 - i0 < n" "n - 1 - i1 < n" using pos by simp_all
    with a b leny have "0 \<in> set (?y ! j1)" "\<exists>cell \<in> set (?y ! j1). cell \<noteq> 0"
      by (metis nth_mem)+
    moreover have "?y ! j1 \<in> set ?y" using sy t1(2) by (simp add: square_length)
    ultimately have "fst (moveLeft ?y) \<noteq> ?y \<or> fst (moveRight ?y) \<noteq> ?y"
      by (intro mixed_row_horizontal [of "?y ! j1"])
    then show ?thesis by (simp add: some_move_changes_iff [OF sq pos])
  qed
qed

lemma canMove_square:
  assumes "square n g"
  shows "canMove g \<longleftrightarrow> hasZero g \<or> equalRight n g \<or> equalBelow n g"
proof (cases "hasZero g")
  case True
  then have "getEmptyCells g \<noteq> []" by (simp add: getEmptyCells_Nil_iff)
  with True show ?thesis by (simp add: canMove_def)
next
  case False
  then have "getEmptyCells g = []" by (simp add: getEmptyCells_Nil_iff)
  then have "canMove g \<longleftrightarrow>
      (\<exists>i < n. \<exists>j < n. (j < n - 1 \<and> g ! i ! j = g ! i ! (j + 1))
                      \<or> (i < n - 1 \<and> g ! i ! j = g ! (i + 1) ! j))"
    using assms by (simp add: canMove_def list_ex_iff square_length Bex_def)
  also have "\<dots> \<longleftrightarrow> equalRight n g \<or> equalBelow n g"
    unfolding equalRight_def equalBelow_def by (auto simp: less_diff_conv)
  finally show ?thesis using False by simp
qed

lemma full_board_moves:
  assumes sq: "square n g" and pos: "0 < n" and full: "\<not> hasZero g"
  shows "(\<exists>d. moveChanges g d) \<longleftrightarrow> equalRight n g \<or> equalBelow n g"
proof -
  have sy: "square n (rotateCells g)" using sq pos by (rule square_rotateCells)
  have fy: "\<not> hasZero (rotateCells g)" using full by (simp add: hasZero_rotateCells [OF sq pos])
  have "fst (moveLeft (rotateCells g)) \<noteq> rotateCells g
        \<or> fst (moveRight (rotateCells g)) \<noteq> rotateCells g \<longleftrightarrow> equalBelow n g"
    using full_board_horizontal [OF sy fy] equalRight_rotateCells [OF sq pos] by simp
  with full_board_horizontal [OF sq full] some_move_changes_iff [OF sq pos]
  show ?thesis by blast
qed

section \<open>The claims\<close>

text \<open>
  Claim C1 (victory is sticky) against the code. The new flag is computed as
  \<^verbatim>\<open>!state.won && hasWon(newBoard)\<close>, so from a state that has \<open>won = True\<close> every accepted
  move returns \<open>won = False\<close>, also while the 2048 tile is still on the board. Evaluated
  here on a 4 by 4 board holding a 2048 tile, moved to the right.
\<close>
theorem makeMove_won_reverts:
  "makeMove \<lparr>board = [[2048, 2, 0, 0], [0, 0, 0, 0], [0, 0, 0, 0], [0, 0, 0, 0]],
              score = 20000, gameOver = False, won = True\<rparr> Right (0, 0)
   = Inr \<lparr>board = [[2, 0, 2048, 2], [0, 0, 0, 0], [0, 0, 0, 0], [0, 0, 0, 0]],
           score = 20000, gameOver = False, won = False\<rparr>"
  by code_simp

text \<open>
  Claim C2. A move that changes nothing consumes nothing: from a state that is not over,
  when the move in direction \<open>d\<close> yields a board equal to the state's board (equal as a
  value, or equal by the code's own test \<open>boardsEqual\<close>), \<open>makeMove\<close> returns the input
  state itself: same board, same score, same flags, no tile spawned, for all draws.
\<close>
theorem makeMove_noop_unchanged:
  assumes "\<not> gameOver s"
    and "applyDirection (board s) d = Inr (b, gained)"
    and "b = board s \<or> boardsEqual b (board s) = Inr True"
  shows "makeMove s d rnd = Inr s"
proof -
  from assms(3) have "boardsEqual b (board s) = Inr True"
    by (auto simp: boardsEqual_refl)
  with assms(1,2) show ?thesis
    by (simp add: makeMove_def and_then_def)
qed

theorem makeMove_noop_unchanged_witness:
  "\<not> gameOver \<lparr>board = [[2, 0], [4, 0]], score = 0, gameOver = False, won = False\<rparr>
   \<and> applyDirection [[2, 0], [4, 0]] Left = Inr ([[2, 0], [4, 0]], 0)
   \<and> makeMove \<lparr>board = [[2, 0], [4, 0]], score = 0, gameOver = False, won = False\<rparr> Left (1 / 2, 1 / 2)
       = Inr \<lparr>board = [[2, 0], [4, 0]], score = 0, gameOver = False, won = False\<rparr>"
proof -
  let ?s = "\<lparr>board = [[2, 0], [4, 0]], score = 0, gameOver = False, won = False\<rparr>"
  have h1: "\<not> gameOver ?s" by simp
  have h2: "applyDirection (board ?s) Left = Inr ([[2, 0], [4, 0]], 0)" by code_simp
  have h3: "[[2, 0], [4, 0]] = board ?s \<or> boardsEqual [[2, 0], [4, 0]] (board ?s) = Inr True"
    by simp
  from makeMove_noop_unchanged [OF h1 h2 h3, of "(1 / 2, 1 / 2)"] h1 h2 show ?thesis by simp
qed

text \<open>
  Claim C3. A state whose \<open>gameOver\<close> flag is set is absorbing: \<open>makeMove\<close> returns it
  unchanged for every direction, whatever the board holds and whatever the random draws
  would have been (the move is not even computed).
\<close>
theorem makeMove_gameOver_absorbing:
  "gameOver s \<Longrightarrow> makeMove s d rnd = Inr s"
  by (simp add: makeMove_def)

theorem makeMove_gameOver_absorbing_witness:
  "gameOver \<lparr>board = [[2, 4], [4, 2]], score = 16, gameOver = True, won = False\<rparr>
   \<and> makeMove \<lparr>board = [[2, 4], [4, 2]], score = 16, gameOver = True, won = False\<rparr> Up (0, 0)
       = Inr \<lparr>board = [[2, 4], [4, 2]], score = 16, gameOver = True, won = False\<rparr>"
proof -
  have h: "gameOver \<lparr>board = [[2, 4], [4, 2]], score = 16, gameOver = True, won = False\<rparr>"
    by simp
  from makeMove_gameOver_absorbing [OF h, of Up "(0, 0)"] h show ?thesis by simp
qed

text \<open>
  Claim C4. \<open>slideRow\<close> merges each tile at most once per call: its result is the
  specification's reduction \<open>reduceLine\<close> (zeros removed, one scan from the left in which
  an equal adjacent pair becomes one value of double size with both inputs consumed and
  any other value passes through, padded with zeros to the input length; the score is the
  sum of the merge results); each output value consumes at most two input tiles; and
  \<open>[2,2,2,2]\<close> gives \<open>[4,4,0,0]\<close>, \<open>[2,2,2]\<close> gives \<open>[4,2,0]\<close>.
\<close>
theorem slideRow_merges_once:
  "slideRow line = reduceLine line
   \<and> length (filter (\<lambda>cell. cell \<noteq> 0) line)
        \<le> 2 * length (mergePairs (filter (\<lambda>cell. cell \<noteq> 0) line))
   \<and> slideRow [2, 2, 2, 2] = ([4, 4, 0, 0], 8)
   \<and> slideRow [2, 2, 2] = ([4, 2, 0], 4)"
proof -
  have "slideRow [2, 2, 2, 2] = ([4, 4, 0, 0], 8)"
    by (simp add: slideRow_reduceLine reduceLine_def)
  moreover have "slideRow [2, 2, 2] = ([4, 2, 0], 4)"
    by (simp add: slideRow_reduceLine reduceLine_def)
  ultimately show ?thesis
    using slideRow_reduceLine length_mergePairs_half by blast
qed

text \<open>
  Claim C5 (\<open>canMove\<close> exactly characterises movability) as stated fails on a square board
  of empty cells only, such as the one \<^verbatim>\<open>createEmptyBoard(4)\<close> builds: \<open>canMove\<close> is true
  there, since there are empty cells, and each of the four moves returns the board as it
  was.
\<close>
theorem canMove_empty_board_counterexample:
  "square 4 [[0, 0, 0, 0], [0, 0, 0, 0], [0, 0, 0, 0], [0, 0, 0, 0]]
   \<and> canMove [[0, 0, 0, 0], [0, 0, 0, 0], [0, 0, 0, 0], [0, 0, 0, 0]]
   \<and> applyDirection [[0, 0, 0, 0], [0, 0, 0, 0], [0, 0, 0, 0], [0, 0, 0, 0]] Up
        = Inr ([[0, 0, 0, 0], [0, 0, 0, 0], [0, 0, 0, 0], [0, 0, 0, 0]], 0)
   \<and> applyDirection [[0, 0, 0, 0], [0, 0, 0, 0], [0, 0, 0, 0], [0, 0, 0, 0]] Down
        = Inr ([[0, 0, 0, 0], [0, 0, 0, 0], [0, 0, 0, 0], [0, 0, 0, 0]], 0)
   \<and> applyDirection [[0, 0, 0, 0], [0, 0, 0, 0], [0, 0, 0, 0], [0, 0, 0, 0]] Left
        = Inr ([[0, 0, 0, 0], [0, 0, 0, 0], [0, 0, 0, 0], [0, 0, 0, 0]], 0)
   \<and> applyDirection [[0, 0, 0, 0], [0, 0, 0, 0], [0, 0, 0, 0], [0, 0, 0, 0]] Right
        = Inr ([[0, 0, 0, 0], [0, 0, 0, 0], [0, 0, 0, 0], [0, 0, 0, 0]], 0)"
  by code_simp

text \<open>
  Claim C5 as amended. For every square board: \<open>canMove\<close> is true exactly when the board
  has an empty cell, or some cell equals its right neighbour, or some cell equals the
  cell below it; a direction whose move changes the board implies \<open>canMove\<close>; and on a
  board that holds at least one tile, \<open>canMove\<close> is true if and only if the move in some
  direction changes the board.
\<close>
theorem canMove_characterises_moves:
  assumes "square n g"
  shows "(canMove g \<longleftrightarrow> hasZero g \<or> equalRight n g \<or> equalBelow n g)
    \<and> ((\<exists>d. moveChanges g d) \<longrightarrow> canMove g)
    \<and> (hasTile g \<longrightarrow> (canMove g \<longleftrightarrow> (\<exists>d. moveChanges g d)))"
proof (cases "0 < n")
  case False
  with assms have "g = []" by (simp add: square_def)
  then have "\<not> (\<exists>d. moveChanges g d)" "\<not> hasTile g"
    by (simp_all add: moveChanges_empty hasTile_def)
  with canMove_square [OF assms] show ?thesis by simp
next
  case pos: True
  show ?thesis
  proof (cases "hasZero g")
    case True
    then have "canMove g" by (simp add: canMove_square [OF assms])
    moreover have "\<exists>d. moveChanges g d" if "hasTile g"
      using assms pos True that by (rule zero_and_tile_change)
    ultimately show ?thesis using canMove_square [OF assms] by blast
  next
    case False
    from full_board_moves [OF assms pos False] canMove_square [OF assms] False
    show ?thesis by blast
  qed
qed

theorem canMove_characterises_moves_witness:
  "square 2 [[2, 2], [4, 8]] \<and> hasTile [[2, 2], [4, 8]]
   \<and> canMove [[2, 2], [4, 8]] \<and> (\<exists>d. moveChanges [[2, 2], [4, 8]] d)
   \<and> square 2 [[2, 4], [4, 2]] \<and> hasTile [[2, 4], [4, 2]]
   \<and> \<not> canMove [[2, 4], [4, 2]] \<and> \<not> (\<exists>d. moveChanges [[2, 4], [4, 2]] d)"
proof -
  have a: "square 2 [[2, 2], [4, 8]]" and b: "square 2 [[2, 4], [4, 2]]"
    by (simp_all add: square_def)
  have ta: "hasTile [[2, 2], [4, 8]]" and tb: "hasTile [[2, 4], [4, 2]]"
    by (simp_all add: hasTile_def)
  have ca: "canMove [[2, 2], [4, 8]]" by code_simp
  have cb: "\<not> canMove [[2, 4], [4, 2]]" by code_simp
  from canMove_characterises_moves [OF a] ta ca
  have "\<exists>d. moveChanges [[2, 2], [4, 8]] d" by blast
  moreover from canMove_characterises_moves [OF b] cb
  have "\<not> (\<exists>d. moveChanges [[2, 4], [4, 2]] d)" by blast
  ultimately show ?thesis using a b ta tb ca cb by blast
qed


text \<open>
  Claim C7. Rotation round trip: for every \<open>N\<close> and every \<open>N\<close> by \<open>N\<close> grid, the rotation
  succeeds, its cell at \<open>(r, c)\<close> is the original cell at \<open>(N - 1 - c, r)\<close>, and four
  rotations return the original grid exactly. A grid has at least one row: \<^verbatim>\<open>createEmptyBoard\<close>
  is called with a size of at least 1, and every board that reaches \<open>rotateBoard\<close> comes
  from it.
\<close>
theorem rotateBoard_four_times:
  assumes "square n b" and "0 < n"
  shows "(\<exists>rot. rotateBoard b = Inr rot \<and> square n rot
               \<and> (\<forall>r < n. \<forall>c < n. rot ! r ! c = b ! (n - 1 - c) ! r))
         \<and> rotateTimes 4 b = Inr b"
proof -
  let ?r1 = "rotateCells b"
  let ?r2 = "rotateCells ?r1"
  let ?r3 = "rotateCells ?r2"
  have s1: "square n ?r1" using assms by (rule square_rotateCells)
  have s2: "square n ?r2" using s1 assms(2) by (rule square_rotateCells)
  have s3: "square n ?r3" using s2 assms(2) by (rule square_rotateCells)
  have "rotateTimes 4 b = Inr (rotateCells ?r3)"
    by (simp add: numeral_eq_Suc and_then_def rotateBoard_square [OF assms]
        rotateBoard_square [OF s1 assms(2)] rotateBoard_square [OF s2 assms(2)]
        rotateBoard_square [OF s3 assms(2)])
  then have "rotateTimes 4 b = Inr b"
    by (simp add: rotateCells_four [OF assms])
  moreover have "\<forall>r < n. \<forall>c < n. ?r1 ! r ! c = b ! (n - 1 - c) ! r"
    by (simp add: rotateCells_nth [OF assms(1)])
  ultimately show ?thesis
    using s1 rotateBoard_square [OF assms] by blast
qed

theorem rotateBoard_four_times_witness:
  "square 2 [[1, 2], [3, 4]] \<and> 0 < (2::nat)
   \<and> rotateBoard [[1, 2], [3, 4]] = Inr [[3, 1], [4, 2]]
   \<and> rotateTimes 4 [[1, 2], [3, 4]] = Inr [[1, 2], [3, 4]]"
proof -
  have h: "square 2 [[1, 2], [3, 4]]" by (simp add: square_def)
  have r: "rotateBoard [[1, 2], [3, 4]] = Inr [[3, 1], [4, 2]]" by code_simp
  from rotateBoard_four_times [OF h] h r show ?thesis by simp
qed

text \<open>
  Claim C8 (sum accounting) as stated fails: a merge replaces two equal values by their
  sum, so it leaves the sum of the line as it was, and the output's sum is not the
  input's sum plus the merge results. On \<open>[2,2]\<close> the output \<open>[4,0]\<close> sums to 4, while
  the non-zero input (4) plus the merge results (4) is 8.
\<close>
theorem slideRow_sum_counterexample:
  "sum_list (fst (slideRow [2, 2]))
     \<noteq> sum_list (filter (\<lambda>cell. cell \<noteq> 0) [2, 2]) + sum_list (mergeResults (filter (\<lambda>cell. cell \<noteq> 0) [2, 2]))"
  by (simp add: slideRow_reduceLine reduceLine_def)

text \<open>
  Claim C8 as amended: the sum of the output line equals the sum of the non-zero input
  values (which is the sum of the input line); it is the sum of the values passed through
  unmerged plus the sum of the merge results, each merge result counted once; and the
  score gained is the sum of the merge results.
\<close>
theorem slideRow_sum_preserved:
  "sum_list (fst (slideRow line)) = sum_list (filter (\<lambda>cell. cell \<noteq> 0) line)
   \<and> sum_list (fst (slideRow line)) = sum_list line
   \<and> sum_list (fst (slideRow line))
        = sum_list (passedThrough (filter (\<lambda>cell. cell \<noteq> 0) line))
          + sum_list (mergeResults (filter (\<lambda>cell. cell \<noteq> 0) line))
   \<and> snd (slideRow line) = sum_list (mergeResults (filter (\<lambda>cell. cell \<noteq> 0) line))"
proof -
  have out: "sum_list (fst (slideRow line))
      = sum_list (mergePairs (filter (\<lambda>cell. cell \<noteq> 0) line))"
    by (simp add: slideRow_fst sum_list_replicate)
  have "snd (slideRow line) = sum_list (mergeResults (filter (\<lambda>cell. cell \<noteq> 0) line))"
    by (simp add: slideRow_reduceLine reduceLine_def Let_def)
  with out show ?thesis
    using sum_mergePairs_split [of "filter (\<lambda>cell. cell \<noteq> 0) line"]
    by (simp add: sum_mergePairs sum_filter_nonzero)
qed

text \<open>
  Claim C9. An accepted move always spawns a tile. On a square board, when the move in
  direction \<open>d\<close> yields a board \<open>b\<close> different from the board moved, \<open>b\<close> has an empty
  cell; so for every state that is not over and holds that board, and for every draw,
  \<open>makeMove\<close> returns the state whose board is \<open>b\<close> with exactly one cell, empty in \<open>b\<close>,
  set to 2 or 4 (the branch of \<open>addRandomTile\<close> for a full board is not taken).
\<close>
theorem accepted_move_spawns_tile:
  assumes "square n g" and "applyDirection g d = Inr (b, gained)" and "b \<noteq> g"
  shows "getEmptyCells b \<noteq> []
    \<and> (\<forall>s rnd. board s = g \<and> \<not> gameOver s \<and> unit_draw (fst rnd) \<longrightarrow>
          (\<exists>i j v. i < n \<and> j < n \<and> b ! i ! j = 0 \<and> (v = 2 \<or> v = 4)
             \<and> makeMove s d rnd =
                 Inr \<lparr>board = b[i := (b ! i)[j := v]], score = score s + gained,
                      gameOver = (\<not> canMove (b[i := (b ! i)[j := v]])),
                      won = (\<not> won s \<and> hasWon (b[i := (b ! i)[j := v]]))\<rparr>))"
proof -
  have sqb: "square n b" using assms(1,2) by (rule applyDirection_square)
  have "hasZero b" using assms by (rule applyDirection_changed_zero)
  then have ne: "getEmptyCells b \<noteq> []" by (simp add: getEmptyCells_Nil_iff)
  have neq: "boardsEqual b g = Inr False"
    using assms(3) by (simp add: boardsEqual_square [OF sqb assms(1)])
  have "\<exists>i j v. i < n \<and> j < n \<and> b ! i ! j = 0 \<and> (v = 2 \<or> v = 4)
             \<and> makeMove s d rnd =
                 Inr \<lparr>board = b[i := (b ! i)[j := v]], score = score s + gained,
                      gameOver = (\<not> canMove (b[i := (b ! i)[j := v]])),
                      won = (\<not> won s \<and> hasWon (b[i := (b ! i)[j := v]]))\<rparr>"
    if s: "board s = g" "\<not> gameOver s" and u: "unit_draw (fst rnd)" for s rnd
  proof -
    from addRandomTile_spawn [OF ne u] obtain i j v
      where ij: "(i, j) \<in> set (getEmptyCells b)" and v: "v = 2 \<or> v = 4"
        and new: "addRandomTile b rnd = b[i := (b ! i)[j := v]]"
      by blast
    from ij have "i < length b" "j < length (b ! i)" "b ! i ! j = 0"
      by (simp_all add: getEmptyCells_set)
    with sqb have "i < n" "j < n" "b ! i ! j = 0"
      by (simp_all add: square_length square_row)
    moreover have "makeMove s d rnd =
        Inr \<lparr>board = b[i := (b ! i)[j := v]], score = score s + gained,
             gameOver = (\<not> canMove (b[i := (b ! i)[j := v]])),
             won = (\<not> won s \<and> hasWon (b[i := (b ! i)[j := v]]))\<rparr>"
      using makeMove_accepted [of s d b gained rnd] s assms(2) neq new by simp
    ultimately show ?thesis using v by blast
  qed
  with ne show ?thesis by blast
qed

theorem accepted_move_spawns_tile_witness:
  "square 2 [[2, 0], [2, 0]]
   \<and> applyDirection [[2, 0], [2, 0]] Up = Inr ([[4, 0], [0, 0]], 4)
   \<and> [[4, 0], [0, 0]] \<noteq> [[2, 0], [2 :: int, 0]]
   \<and> getEmptyCells [[4, 0], [0, 0]] \<noteq> []
   \<and> (\<exists>i j v. i < (2::nat) \<and> j < (2::nat) \<and> [[4, 0], [0, 0]] ! i ! j = (0::int) \<and> (v = 2 \<or> v = 4)
         \<and> makeMove \<lparr>board = [[2, 0], [2, 0]], score = 0, gameOver = False, won = False\<rparr>
              Up (1 / 2, 19 / 20)
            = Inr \<lparr>board = [[4, 0], [0, 0]][i := ([[4, 0], [0, 0]] ! i)[j := v]],
                   score = 0 + 4,
                   gameOver = (\<not> canMove ([[4, 0], [0, 0]][i := ([[4, 0], [0, 0]] ! i)[j := v]])),
                   won = (\<not> False \<and> hasWon ([[4, 0], [0, 0]][i := ([[4, 0], [0, 0]] ! i)[j := v]]))\<rparr>)"
proof -
  let ?s = "\<lparr>board = [[2, 0], [2, 0]], score = 0, gameOver = False, won = False\<rparr>"
  have h1: "square 2 [[2, 0], [2, 0]]" by (simp add: square_def)
  have h2: "applyDirection [[2, 0], [2, 0]] Up = Inr ([[4, 0], [0, 0]], 4)" by code_simp
  have h3: "[[4, 0], [0, 0]] \<noteq> [[2, 0], [2 :: int, 0]]" by simp
  have h4: "board ?s = [[2, 0], [2, 0]] \<and> \<not> gameOver ?s \<and> unit_draw (fst (1 / 2 :: real, 19 / 20 :: real))"
    by (simp add: unit_draw_def)
  from accepted_move_spawns_tile [OF h1 h2 h3] h4
  have "getEmptyCells [[4, 0], [0, 0]] \<noteq> []
    \<and> (\<exists>i j v. i < (2::nat) \<and> j < (2::nat) \<and> [[4, 0], [0, 0]] ! i ! j = (0::int) \<and> (v = 2 \<or> v = 4)
         \<and> makeMove ?s Up (1 / 2, 19 / 20)
            = Inr \<lparr>board = [[4, 0], [0, 0]][i := ([[4, 0], [0, 0]] ! i)[j := v]],
                   score = score ?s + 4,
                   gameOver = (\<not> canMove ([[4, 0], [0, 0]][i := ([[4, 0], [0, 0]] ! i)[j := v]])),
                   won = (\<not> won ?s \<and> hasWon ([[4, 0], [0, 0]][i := ([[4, 0], [0, 0]] ! i)[j := v]]))\<rparr>)"
    by blast
  with h1 h2 h3 show ?thesis by simp
qed

text \<open>
  Claim C10. \<open>addRandomTile\<close> changes at most one cell and frames the rest. With the cell
  draw in the unit interval: a board with no empty cell is returned as it is; otherwise
  the result is the input with one cell, which held 0, set to 2 or 4, every other cell
  and all lengths as before. On references: every object of the store that existed
  before the call is unchanged, so the caller's board still denotes the input; the
  returned reference denotes the result of the value model; and for a full board it is
  the input reference itself.
\<close>
theorem addRandomTile_frame:
  assumes "unit_draw (fst rnd)"
  shows "(getEmptyCells b = [] \<longrightarrow> addRandomTile b rnd = b)
    \<and> (getEmptyCells b \<noteq> [] \<longrightarrow>
         (\<exists>i j v. i < length b \<and> j < length (b ! i) \<and> b ! i ! j = 0 \<and> (v = 2 \<or> v = 4)
            \<and> addRandomTile b rnd = b[i := (b ! i)[j := v]]
            \<and> addRandomTile b rnd ! i ! j = v
            \<and> (\<forall>i' j'. (i', j') \<noteq> (i, j) \<longrightarrow> addRandomTile b rnd ! i' ! j' = b ! i' ! j')))
    \<and> map length (addRandomTile b rnd) = map length b
    \<and> (\<forall>h a. isBoardRef h a \<and> boardAt h a = b \<longrightarrow>
          take (length h) (fst (addRandomTileRef h a rnd)) = h
          \<and> boardAt (fst (addRandomTileRef h a rnd)) a = b
          \<and> boardAt (fst (addRandomTileRef h a rnd)) (snd (addRandomTileRef h a rnd))
              = addRandomTile b rnd
          \<and> (getEmptyCells b = [] \<longrightarrow> addRandomTileRef h a rnd = (h, a))
          \<and> (getEmptyCells b \<noteq> [] \<longrightarrow> length h \<le> snd (addRandomTileRef h a rnd)))"
proof (cases "getEmptyCells b = []")
  case True
  then have "addRandomTile b rnd = b" by (rule addRandomTile_full)
  moreover have "addRandomTileRef h a rnd = (h, a)" if "boardAt h a = b" for h a
    using that True by (simp add: addRandomTileRef_full)
  ultimately show ?thesis using True by simp
next
  case False
  from addRandomTile_spawn [OF False assms] obtain i j v
    where ij: "(i, j) \<in> set (getEmptyCells b)" and v: "v = 2 \<or> v = 4"
      and new: "addRandomTile b rnd = b[i := (b ! i)[j := v]]"
    by blast
  from ij have bounds: "i < length b" "j < length (b ! i)" "b ! i ! j = 0"
    by (simp_all add: getEmptyCells_bounds)
  have at: "addRandomTile b rnd ! i ! j = v"
    using bounds by (simp add: new)
  have frame: "\<forall>i' j'. (i', j') \<noteq> (i, j) \<longrightarrow> addRandomTile b rnd ! i' ! j' = b ! i' ! j'"
    unfolding new using cell_update_frame [OF bounds(1)] by blast
  have lens: "map length (addRandomTile b rnd) = map length b"
    unfolding new using bounds(1) by (intro nth_equalityI) (simp_all add: nth_list_update)
  have refs: "take (length h) (fst (addRandomTileRef h a rnd)) = h
          \<and> boardAt (fst (addRandomTileRef h a rnd)) a = b
          \<and> boardAt (fst (addRandomTileRef h a rnd)) (snd (addRandomTileRef h a rnd))
              = addRandomTile b rnd
          \<and> length h \<le> snd (addRandomTileRef h a rnd)"
    if ref: "isBoardRef h a" and den: "boardAt h a = b" for h a
  proof -
    from False den have ne: "getEmptyCells (boardAt h a) \<noteq> []" by simp
    from addRandomTileRef_spawn [OF ref ne assms] obtain r c w
      where rc: "(r, c) \<in> set (getEmptyCells (boardAt h a))"
        and pure: "addRandomTile (boardAt h a) rnd = (boardAt h a)[r := (boardAt h a ! r)[c := w]]"
        and run: "addRandomTileRef h a rnd =
         ((h @ map (\<lambda>x. Cells (cellsAt h x)) (rowsAt h a)
             @ [Rows [length h..<length h + length (rowsAt h a)]])
            [length h + r := Cells ((boardAt h a ! r)[c := w])],
          length h + length (rowsAt h a))"
      by blast
    from rc have "r < length (boardAt h a)" by (simp add: getEmptyCells_bounds)
    then have r: "r < length (rowsAt h a)" by (simp add: boardAt_def)
    have old: "take (length h) (fst (addRandomTileRef h a rnd)) = h"
      unfolding run fst_conv by (rule spawned_store_old)
    have "boardAt (fst (addRandomTileRef h a rnd)) (snd (addRandomTileRef h a rnd))
        = (map (cellsAt h) (rowsAt h a))[r := (boardAt h a ! r)[c := w]]"
      unfolding run fst_conv snd_conv
      using isBoardRef_rows(3) [OF ref] r by (rule spawned_store_board)
    then have "boardAt (fst (addRandomTileRef h a rnd)) (snd (addRandomTileRef h a rnd))
        = addRandomTile b rnd"
      using pure den by (simp add: boardAt_def)
    moreover have "boardAt (fst (addRandomTileRef h a rnd)) a = b"
      using boardAt_old [OF ref old] den by simp
    moreover have "length h \<le> snd (addRandomTileRef h a rnd)"
      unfolding run by simp
    ultimately show ?thesis using old by simp
  qed
  have "\<exists>i j v. i < length b \<and> j < length (b ! i) \<and> b ! i ! j = 0 \<and> (v = 2 \<or> v = 4)
            \<and> addRandomTile b rnd = b[i := (b ! i)[j := v]]
            \<and> addRandomTile b rnd ! i ! j = v
            \<and> (\<forall>i' j'. (i', j') \<noteq> (i, j) \<longrightarrow> addRandomTile b rnd ! i' ! j' = b ! i' ! j')"
    using bounds v new at frame by blast
  with False lens refs show ?thesis by simp
qed

theorem addRandomTile_frame_witness:
  "unit_draw (fst (1 / 2 :: real, 19 / 20 :: real))
   \<and> isBoardRef [Cells [2, 0], Cells [0, 4], Rows [0, 1]] 2
   \<and> boardAt [Cells [2, 0], Cells [0, 4], Rows [0, 1]] 2 = [[2, 0], [0, 4]]
   \<and> addRandomTile [[2, 0], [0, 4]] (1 / 2, 19 / 20) = [[2, 0], [4, 4]]
   \<and> addRandomTileRef [Cells [2, 0], Cells [0, 4], Rows [0, 1]] 2 (1 / 2, 19 / 20)
       = ([Cells [2, 0], Cells [0, 4], Rows [0, 1], Cells [2, 0], Cells [4, 4], Rows [3, 4]], 5)
   \<and> boardAt (fst (addRandomTileRef [Cells [2, 0], Cells [0, 4], Rows [0, 1]] 2 (1 / 2, 19 / 20))) 2
       = [[2, 0], [0, 4]]"
proof -
  let ?h = "[Cells [2, 0], Cells [0, 4], Rows [0, 1]]"
  have u: "unit_draw (fst (1 / 2 :: real, 19 / 20 :: real))" by (simp add: unit_draw_def)
  have r: "isBoardRef ?h 2 \<and> boardAt ?h 2 = [[2, 0], [0, 4]]" by code_simp
  have p: "addRandomTile [[2, 0], [0, 4]] (1 / 2, 19 / 20) = [[2, 0], [4, 4]]" by code_simp
  have q: "addRandomTileRef ?h 2 (1 / 2, 19 / 20)
       = ([Cells [2, 0], Cells [0, 4], Rows [0, 1], Cells [2, 0], Cells [4, 4], Rows [3, 4]], 5)"
    by code_simp
  from addRandomTile_frame [OF u, of "[[2, 0], [0, 4]]"] r
  have "boardAt (fst (addRandomTileRef ?h 2 (1 / 2, 19 / 20))) 2 = [[2, 0], [0, 4]]"
    by blast
  with u r p q show ?thesis by blast
qed

end
